theory Spec2Isabelle
  imports Main "HOL-Library.Word" "HOL-Library.Sublist" "HOL-Library.List_Lexorder"
    "HOL-Library.Char_ord"
begin

unbundle bit_operations_syntax

section \<open>Python values used by the exporter\<close>

text \<open>
  Python integers are unbounded: they are modelled as \<open>int\<close>. Python's \<open>&\<close> on integers is
  the two's complement conjunction, which is \<open>AND\<close> on \<open>int\<close>. A \<open>str\<close> is modelled by the
  \<open>string\<close> of the bytes of its UTF-8 encoding: equality, emptiness, the occurrence of an
  ASCII text, a prefix and the order by code points are then those of the \<open>str\<close>. What
  depends on Unicode, \<open>str.lower\<close>, is not defined here: it is a parameter.
\<close>

datatype exn = ValueError | IndexError | KeyError | TypeError

text \<open>\<open>str(n)\<close> of a non-negative integer: its decimal digits, most significant first.\<close>

definition digit_char :: "nat \<Rightarrow> char" where
  "digit_char d = ''0123456789'' ! d"

fun str_nat :: "nat \<Rightarrow> string" where
  "str_nat n = (if n < 10 then [digit_char n] else str_nat (n div 10) @ [digit_char (n mod 10)])"

declare str_nat.simps [simp del]

definition str_int :: "int \<Rightarrow> string" where
  "str_int i = (if i < 0 then CHR ''-'' # str_nat (nat (- i)) else str_nat (nat i))"

section \<open>export\_vivaldi\_history.py: decode\_transition\<close>

definition core_map :: "int \<Rightarrow> string option" where
  "core_map core =
     (if core = 0 then Some ''link''
      else if core = 1 then Some ''typed''
      else if core = 2 then Some ''auto_bookmark''
      else if core = 3 then Some ''auto_subframe''
      else if core = 4 then Some ''manual_subframe''
      else if core = 5 then Some ''generated''
      else if core = 6 then Some ''auto_toplevel''
      else if core = 7 then Some ''form_submit''
      else if core = 8 then Some ''reload''
      else if core = 9 then Some ''keyword''
      else if core = 10 then Some ''keyword_generated''
      else None)"

text \<open>
  One \<open>if transition & mask: qualifiers.append(name)\<close> statement of the source: the list
  of qualifiers is passed in and returned extended or unchanged.
\<close>

definition append_if :: "int \<Rightarrow> int \<Rightarrow> string \<Rightarrow> string list \<Rightarrow> string list" where
  "append_if transition msk name qualifiers =
     (if transition AND msk \<noteq> 0 then qualifiers @ [name] else qualifiers)"

definition decode_transition :: "int \<Rightarrow> string \<times> string list" where
  "decode_transition transition =
     (let core = transition AND 0xFF;
          core_name = (case core_map core of Some n \<Rightarrow> n | None \<Rightarrow> ''unknown_'' @ str_int core);
          qualifiers = [];
          qualifiers = append_if transition 0x01000000 ''chain_start'' qualifiers;
          qualifiers = append_if transition 0x02000000 ''chain_end'' qualifiers;
          qualifiers = append_if transition 0x04000000 ''client_redirect'' qualifiers;
          qualifiers = append_if transition 0x08000000 ''server_redirect'' qualifiers;
          qualifiers = append_if transition 0x10000000 ''is_redirect'' qualifiers;
          qualifiers = append_if transition 0x20000000 ''from_address_bar'' qualifiers;
          qualifiers = append_if transition 0x40000000 ''home_page'' qualifiers;
          qualifiers = append_if transition 0x80000000 ''user_gesture'' qualifiers
      in (core_name, qualifiers))"

section \<open>Strings\<close>

text \<open>
  \<open>sub in s\<close> is the test for a contiguous occurrence, \<open>s.startswith(p)\<close> is \<open>prefix p s\<close>.
\<close>

fun contains :: "string \<Rightarrow> string \<Rightarrow> bool" where
  "contains sub [] = (sub = [])"
| "contains sub (c # cs) = (prefix sub (c # cs) \<or> contains sub cs)"

definition startswith :: "string \<Rightarrow> string \<Rightarrow> bool" where
  "startswith s p = prefix p s"

text \<open>\<open>s.replace(old, new)\<close> for a non-empty \<open>old\<close>: occurrences are replaced from the left.\<close>

function replace :: "string \<Rightarrow> string \<Rightarrow> string \<Rightarrow> string" where
  "replace old new [] = []"
| "replace old new (c # cs) =
     (if old \<noteq> [] \<and> prefix old (c # cs)
      then new @ replace old new (drop (length old) (c # cs))
      else c # replace old new cs)"
  by pat_completeness auto
termination
  by (relation "measure (\<lambda>(old, new, s). length s)") (auto simp: neq_Nil_conv)

section \<open>The standard library as a parameter\<close>

text \<open>
  \<open>str.lower\<close>, \<open>urllib.parse.urlparse\<close>, \<open>urllib.parse.parse_qs\<close> and
  \<open>datetime.fromisoformat\<close> are not code of the repository. The functions that call them
  take them as arguments, so every theorem below holds for whatever these four functions
  compute. A call that raises returns \<open>Inl\<close>; \<open>str.lower\<close> does not raise. \<open>parse_qs\<close> returns
  a dictionary from names to the lists of their values.
\<close>

record ParseResult =
  scheme :: string
  netloc :: string
  path :: string
  params :: string
  query :: string
  fragment :: string

record datetime =
  year :: nat
  month :: nat
  day :: nat
  hour :: nat
  minute :: nat
  second :: nat
  microsecond :: nat

type_synonym lower_fn = "string \<Rightarrow> string"
type_synonym urlparse_fn = "string \<Rightarrow> exn + ParseResult"
type_synonym parse_qs_fn = "string \<Rightarrow> (string \<rightharpoonup> string list)"
type_synonym fromisoformat_fn = "string \<Rightarrow> exn + datetime"

text \<open>
  \<open>date.weekday()\<close>: Monday is 0. As in the library, it is the proleptic Gregorian ordinal
  of the date plus 6, modulo 7, and the days before a month come from a table, with one
  more after February in a leap year.
\<close>

definition is_leap :: "nat \<Rightarrow> bool" where
  "is_leap y = (y mod 4 = 0 \<and> (y mod 100 \<noteq> 0 \<or> y mod 400 = 0))"

definition days_before_year :: "nat \<Rightarrow> int" where
  "days_before_year y = (let z = int y - 1 in z * 365 + z div 4 - z div 100 + z div 400)"

definition days_in_month :: "nat \<Rightarrow> nat \<Rightarrow> nat" where
  "days_in_month y m =
     (if m = 2 then (if is_leap y then 29 else 28)
      else if m = 4 \<or> m = 6 \<or> m = 9 \<or> m = 11 then 30 else 31)"

definition days_before_month :: "nat \<Rightarrow> nat \<Rightarrow> nat" where
  "days_before_month y m =
     (if m < 13 then [0, 0, 31, 59, 90, 120, 151, 181, 212, 243, 273, 304, 334] ! m else 0)
       + (if 2 < m \<and> is_leap y then 1 else 0)"

definition toordinal :: "datetime \<Rightarrow> int" where
  "toordinal dt =
     days_before_year (year dt) + int (days_before_month (year dt) (month dt)) + int (day dt)"

definition weekday :: "datetime \<Rightarrow> nat" where
  "weekday dt = nat ((toordinal dt + 6) mod 7)"

text \<open>\<open>str(dt.date())\<close>: \<open>YYYY-MM-DD\<close>, zero padded.\<close>

definition zfill :: "nat \<Rightarrow> string \<Rightarrow> string" where
  "zfill w s = replicate (w - length s) CHR ''0'' @ s"

definition date_str :: "datetime \<Rightarrow> string" where
  "date_str dt = zfill 4 (str_nat (year dt)) @ ''-'' @ zfill 2 (str_nat (month dt)) @ ''-''
       @ zfill 2 (str_nat (day dt))"

section \<open>export\_vivaldi\_history.py: extract\_domain and extract\_search\_query\<close>

text \<open>The \<open>try\<close>/\<open>except Exception\<close> of the source is the case on \<open>Inl\<close>.\<close>

definition extract_domain :: "lower_fn \<Rightarrow> urlparse_fn \<Rightarrow> string \<Rightarrow> string" where
  "extract_domain lower urlparse url =
     (case urlparse url of Inr parsed \<Rightarrow> lower (netloc parsed) | Inl e \<Rightarrow> [])"

definition engine_hosts :: "(string \<times> string) list" where
  "engine_hosts =
     [(''www.google.com'', ''q''),
      (''google.com'', ''q''),
      (''www.bing.com'', ''q''),
      (''bing.com'', ''q''),
      (''duckduckgo.com'', ''q''),
      (''www.duckduckgo.com'', ''q''),
      (''search.brave.com'', ''q''),
      (''search.yahoo.com'', ''p''),
      (''yahoo.com'', ''p'')]"

text \<open>
  There is no \<open>try\<close> in \<open>extract_search_query\<close>: an exception of \<open>urlparse\<close> leaves the
  function. \<open>key in params and params[key]\<close> holds when the key is present with a
  non-empty list of values.
\<close>

definition extract_search_query ::
  "lower_fn \<Rightarrow> urlparse_fn \<Rightarrow> parse_qs_fn \<Rightarrow> string \<Rightarrow> exn + string option" where
  "extract_search_query lower urlparse parse_qs url =
     (case urlparse url of
        Inl e \<Rightarrow> Inl e
      | Inr parsed \<Rightarrow>
          (let host = lower (netloc parsed);
               path = lower (path parsed)
           in if host \<in> set (map fst engine_hosts)
                 \<and> (contains ''search'' path \<or> startswith host ''duckduckgo'')
              then (let params = parse_qs (query parsed);
                        key = the (map_of engine_hosts host)
                    in case params key of
                         Some (v # vs) \<Rightarrow> Inr (Some v)
                       | _ \<Rightarrow> Inr None)
              else Inr None))"

section \<open>collections.Counter\<close>

text \<open>
  A \<open>Counter\<close> is a dictionary: its items are kept in the order in which their keys were
  first inserted. \<open>counter_add k v\<close> is \<open>c[k] += v\<close>, where a missing key counts as 0.
  \<open>most_common(n)\<close> is \<open>heapq.nlargest(n, items, key=count)\<close>, which the library
  documents as \<open>sorted(items, key=count, reverse=True)[:n]\<close>: a stable sort by
  descending count, then the first \<open>n\<close> items.
\<close>

type_synonym 'k counter = "('k \<times> int) list"

fun counter_add :: "'k \<Rightarrow> int \<Rightarrow> 'k counter \<Rightarrow> 'k counter" where
  "counter_add k v [] = [(k, v)]"
| "counter_add k v ((k', c) # kcs) =
     (if k = k' then (k', c + v) # kcs else (k', c) # counter_add k v kcs)"

definition Counter :: "'k list \<Rightarrow> 'k counter" where
  "Counter xs = fold (\<lambda>k. counter_add k 1) xs []"

definition most_common :: "nat \<Rightarrow> 'k counter \<Rightarrow> ('k \<times> int) list" where
  "most_common n c = take n (sort_key (\<lambda>kc. - snd kc) c)"

section \<open>export\_vivaldi\_history.py: grouping and distributions\<close>

text \<open>
  A visit record is a dictionary; these are the keys that the aggregation and the merge
  read or write. \<open>source\<close> is absent (\<open>None\<close>) until the merge tags the record.
\<close>

record VisitRecord =
  url :: string
  title :: string
  timestamp :: string
  domain :: string
  source :: "string option"

text \<open>\<open>by_date[date].append(r)\<close> on a \<open>defaultdict(list)\<close>.\<close>

fun dict_append :: "'k \<Rightarrow> 'v \<Rightarrow> ('k \<times> 'v list) list \<Rightarrow> ('k \<times> 'v list) list" where
  "dict_append k v [] = [(k, [v])]"
| "dict_append k v ((k', vs) # kvs) =
     (if k = k' then (k', vs @ [v]) # kvs else (k', vs) # dict_append k v kvs)"

definition group_by_date :: "VisitRecord list \<Rightarrow> (string \<times> VisitRecord list) list" where
  "group_by_date records = fold (\<lambda>r by_date. dict_append (take 10 (timestamp r)) r by_date) records []"

text \<open>
  \<open>hours[dt.hour] += 1\<close> raises \<open>IndexError\<close> when the index is not below the length of
  the list; an exception of \<open>fromisoformat\<close> leaves the function.
\<close>

fun hourly_loop :: "fromisoformat_fn \<Rightarrow> VisitRecord list \<Rightarrow> int list \<Rightarrow> exn + int list" where
  "hourly_loop fromisoformat [] hours = Inr hours"
| "hourly_loop fromisoformat (r # rs) hours =
     (case fromisoformat (replace ''Z'' ''+00:00'' (timestamp r)) of
        Inl e \<Rightarrow> Inl e
      | Inr dt \<Rightarrow>
          if hour dt < length hours
          then hourly_loop fromisoformat rs (hours[hour dt := hours ! hour dt + 1])
          else Inl IndexError)"

definition hourly_distribution :: "fromisoformat_fn \<Rightarrow> VisitRecord list \<Rightarrow> exn + int list" where
  "hourly_distribution fromisoformat records = hourly_loop fromisoformat records (replicate 24 0)"

definition names :: "string list" where
  "names = [''Mon'', ''Tue'', ''Wed'', ''Thu'', ''Fri'', ''Sat'', ''Sun'']"

text \<open>\<open>counts[k] += 1\<close> on a plain dictionary: \<open>KeyError\<close> when the key is absent.\<close>

fun dict_incr :: "'k \<Rightarrow> ('k \<times> int) list \<Rightarrow> exn + ('k \<times> int) list" where
  "dict_incr k [] = Inl KeyError"
| "dict_incr k ((k', c) # kcs) =
     (if k = k' then Inr ((k', c + 1) # kcs)
      else (case dict_incr k kcs of Inl e \<Rightarrow> Inl e | Inr kcs' \<Rightarrow> Inr ((k', c) # kcs')))"

fun weekday_loop ::
  "fromisoformat_fn \<Rightarrow> VisitRecord list \<Rightarrow> (string \<times> int) list \<Rightarrow> exn + (string \<times> int) list" where
  "weekday_loop fromisoformat [] counts = Inr counts"
| "weekday_loop fromisoformat (r # rs) counts =
     (case fromisoformat (replace ''Z'' ''+00:00'' (timestamp r)) of
        Inl e \<Rightarrow> Inl e
      | Inr dt \<Rightarrow>
          if weekday dt < length names
          then (case dict_incr (names ! weekday dt) counts of
                  Inl e \<Rightarrow> Inl e
                | Inr counts' \<Rightarrow> weekday_loop fromisoformat rs counts')
          else Inl IndexError)"

definition weekday_distribution ::
  "fromisoformat_fn \<Rightarrow> VisitRecord list \<Rightarrow> exn + (string \<times> int) list" where
  "weekday_distribution fromisoformat records =
     weekday_loop fromisoformat records (map (\<lambda>n. (n, 0)) names)"

section \<open>export\_vivaldi\_history.py: build\_aggregate\<close>

text \<open>
  The items of \<open>top_domains\<close> are pairs (domain, visit\_count), those of \<open>top_urls\<close> triples
  (url, visit\_count, title) with \<open>None\<close> for a title that is \<open>null\<close>, those of
  \<open>daily_summary\<close> triples (date, visits, unique\_urls) and those of
  \<open>top_search_queries\<close> pairs (query, count).
\<close>

record Aggregate =
  agg_period :: string
  agg_total_visits :: int
  agg_unique_urls :: int
  agg_top_domains :: "(string \<times> int) list"
  agg_top_urls :: "(string \<times> int \<times> string option) list"
  agg_daily_summary :: "(string \<times> int \<times> int) list"
  agg_hourly_distribution :: "int list"
  agg_weekday_distribution :: "(string \<times> int) list"
  agg_top_search_queries :: "(string \<times> int) list"

text \<open>\<open>len({r["url"] for r in records})\<close>: the number of distinct urls.\<close>

definition len_url_set :: "VisitRecord list \<Rightarrow> int" where
  "len_url_set records = int (card (set (map url records)))"

text \<open>\<open>d.setdefault(k, v)\<close>: the key keeps the value it has.\<close>

definition setdefault :: "'k \<Rightarrow> 'v \<Rightarrow> ('k \<rightharpoonup> 'v) \<Rightarrow> ('k \<rightharpoonup> 'v)" where
  "setdefault k v d = (case d k of None \<Rightarrow> d(k \<mapsto> v) | Some old \<Rightarrow> d)"

definition url_to_title_of :: "VisitRecord list \<Rightarrow> (string \<rightharpoonup> string)" where
  "url_to_title_of records =
     fold (\<lambda>r url_to_title.
             if url r \<noteq> [] \<and> title r \<noteq> [] then setdefault (url r) (title r) url_to_title
             else url_to_title)
          records Map.empty"

text \<open>
  The generator \<open>q for q in (extract_search_query(r["url"]) for r in records) if q\<close>: the
  queries that are neither \<open>None\<close> nor empty, in the order of the records. The first
  exception of \<open>extract_search_query\<close> ends it.
\<close>

fun collect_queries ::
  "lower_fn \<Rightarrow> urlparse_fn \<Rightarrow> parse_qs_fn \<Rightarrow> VisitRecord list \<Rightarrow> exn + string list" where
  "collect_queries lower urlparse parse_qs [] = Inr []"
| "collect_queries lower urlparse parse_qs (r # rs) =
     (case extract_search_query lower urlparse parse_qs (url r) of
        Inl e \<Rightarrow> Inl e
      | Inr q \<Rightarrow>
          (case collect_queries lower urlparse parse_qs rs of
             Inl e \<Rightarrow> Inl e
           | Inr qs \<Rightarrow> Inr (case q of Some s \<Rightarrow> (if s \<noteq> [] then s # qs else qs) | None \<Rightarrow> qs)))"

text \<open>
  \<open>by_date\<close> is a dictionary from dates to record lists: a list of items with distinct
  keys. \<open>sorted(by_date.items())\<close> orders the items by their keys.
\<close>

definition build_aggregate ::
  "lower_fn \<Rightarrow> urlparse_fn \<Rightarrow> parse_qs_fn \<Rightarrow> fromisoformat_fn \<Rightarrow> VisitRecord list
     \<Rightarrow> (string \<times> VisitRecord list) list \<Rightarrow> datetime \<Rightarrow> datetime \<Rightarrow> exn + Aggregate" where
  "build_aggregate lower urlparse parse_qs fromisoformat records by_date period_start period_end =
     (let total_visits = int (length records);
          unique_urls = len_url_set records;
          domain_counts = Counter (filter (\<lambda>d. d \<noteq> []) (map domain records));
          url_counts = Counter (filter (\<lambda>u. u \<noteq> []) (map url records));
          top_domains = most_common 20 domain_counts;
          url_to_title = url_to_title_of records;
          top_urls = map (\<lambda>(u, count). (u, count, url_to_title u)) (most_common 50 url_counts);
          daily_summary = map (\<lambda>(d, v). (d, int (length v), len_url_set v)) (sort_key fst by_date)
      in case collect_queries lower urlparse parse_qs records of
           Inl e \<Rightarrow> Inl e
         | Inr queries \<Rightarrow>
             (let search_queries = Counter queries;
                  top_search_queries = most_common 50 search_queries
              in case hourly_distribution fromisoformat records of
                   Inl e \<Rightarrow> Inl e
                 | Inr hourly \<Rightarrow>
                     (case weekday_distribution fromisoformat records of
                        Inl e \<Rightarrow> Inl e
                      | Inr weekdays \<Rightarrow>
                          Inr \<lparr>agg_period = date_str period_start @ '' to '' @ date_str period_end,
                               agg_total_visits = total_visits,
                               agg_unique_urls = unique_urls,
                               agg_top_domains = top_domains,
                               agg_top_urls = top_urls,
                               agg_daily_summary = daily_summary,
                               agg_hourly_distribution = hourly,
                               agg_weekday_distribution = weekdays,
                               agg_top_search_queries = top_search_queries\<rparr>)))"

section \<open>merge\_timeline\_data.py: merge\_daily\<close>

text \<open>
  A daily file is a dictionary; \<open>payload.get("date")\<close> is \<open>None\<close> when the key is absent and
  \<open>payload.get("visits", [])\<close> is the empty list then. \<open>sources\<close> maps each source name to
  its directory: here to \<open>None\<close> when the directory \<open>daily\<close> does not exist, and otherwise to
  the payloads of its files \<open>history_*.json\<close> in the sorted order of their paths.
\<close>

record DailyPayload =
  p_date :: "string option"
  p_visits :: "VisitRecord list"

definition tag_visits ::
  "string \<Rightarrow> DailyPayload \<Rightarrow> (string option \<times> VisitRecord list) list
     \<Rightarrow> (string option \<times> VisitRecord list) list" where
  "tag_visits source_name payload by_date =
     fold (\<lambda>v by_date. dict_append (p_date payload) (v\<lparr>source := Some source_name\<rparr>) by_date)
          (p_visits payload) by_date"

definition merge_source ::
  "string \<times> DailyPayload list option \<Rightarrow> (string option \<times> VisitRecord list) list
     \<Rightarrow> (string option \<times> VisitRecord list) list" where
  "merge_source src by_date =
     (case snd src of
        None \<Rightarrow> by_date
      | Some payloads \<Rightarrow> fold (tag_visits (fst src)) payloads by_date)"

text \<open>
  \<open>sorted(by_date.items())\<close>: the keys are distinct, so the items are ordered by their
  keys. Comparing \<open>None\<close> with a string raises \<open>TypeError\<close>, which happens as soon as there
  are two items and one of the keys is \<open>None\<close>.
\<close>

definition date_key :: "string option \<times> 'v \<Rightarrow> string" where
  "date_key item = (case fst item of Some d \<Rightarrow> d | None \<Rightarrow> [])"

definition sorted_items :: "(string option \<times> 'v) list \<Rightarrow> exn + (string option \<times> 'v) list" where
  "sorted_items items =
     (if 2 \<le> length items \<and> None \<in> set (map fst items) then Inl TypeError
      else Inr (sort_key date_key items))"

text \<open>\<open>len({v.get("url") for v in visits if v.get("url")})\<close>: the distinct non-empty urls.\<close>

definition len_nonempty_url_set :: "VisitRecord list \<Rightarrow> int" where
  "len_nonempty_url_set visits = int (card (set (filter (\<lambda>u. u \<noteq> []) (map url visits))))"

text \<open>
  The file written for a date holds (date, total\_visits, unique\_urls, visits); the item of
  the returned summary holds (date, visits, unique\_urls). \<open>merge_daily\<close> returns the
  summary together with the payloads it wrote.
\<close>

definition merge_daily ::
  "(string \<times> DailyPayload list option) list
     \<Rightarrow> exn + ((string option \<times> int \<times> int) list
               \<times> (string option \<times> int \<times> int \<times> VisitRecord list) list)" where
  "merge_daily sources =
     (let by_date = fold merge_source sources []
      in case sorted_items by_date of
           Inl e \<Rightarrow> Inl e
         | Inr items \<Rightarrow>
             Inr (map (\<lambda>(date, visits).
                         (date, int (length visits), len_nonempty_url_set visits)) items,
                  map (\<lambda>(date, visits).
                         (date, int (length visits), len_nonempty_url_set visits, visits)) items))"

section \<open>merge\_timeline\_data.py: merge\_aggregate\<close>

text \<open>
  The aggregate files are those that the exporter wrote: each is an \<open>Aggregate\<close>. A key
  that a file lacks is represented by the default that the source's \<open>get\<close> supplies for it
  (0, the empty list, the empty dictionary), an absent url, query or period by the empty
  string, which the source's tests treat alike. \<open>sources\<close> is, for each source in the
  order of the dictionary, the list of its aggregate files in the sorted order of their
  paths.
\<close>

record MergeState =
  st_total_visits :: int
  st_unique_urls :: "string set"
  st_domain_counts :: "string counter"
  st_url_counts :: "string counter"
  st_url_to_title :: "string \<rightharpoonup> string"
  st_hourly :: "int list"
  st_weekday_counts :: "string counter"
  st_top_search_queries :: "string counter"
  st_periods :: "string list"

definition merge_top_url :: "string \<times> int \<times> string option \<Rightarrow> MergeState \<Rightarrow> MergeState" where
  "merge_top_url item st =
     (case item of (u, count, t) \<Rightarrow>
        if u \<noteq> [] then
          st\<lparr>st_url_counts := counter_add u count (st_url_counts st),
             st_url_to_title :=
               (case t of
                  Some tt \<Rightarrow> (if tt \<noteq> [] then setdefault u tt (st_url_to_title st)
                              else st_url_to_title st)
                | None \<Rightarrow> st_url_to_title st),
             st_unique_urls := insert u (st_unique_urls st)\<rparr>
        else st)"

definition merge_hourly :: "int list \<Rightarrow> int list \<Rightarrow> int list" where
  "merge_hourly vs hourly =
     fold (\<lambda>(i, v) hourly. if i < 24 then hourly[i := hourly ! i + v] else hourly)
          (enumerate 0 vs) hourly"

definition merge_file :: "Aggregate \<Rightarrow> MergeState \<Rightarrow> MergeState" where
  "merge_file data st =
     (let st = st\<lparr>st_total_visits := st_total_visits st + agg_total_visits data\<rparr>;
          st = st\<lparr>st_periods := st_periods st @ [agg_period data]\<rparr>;
          st = st\<lparr>st_domain_counts :=
                    fold (\<lambda>(d, count). counter_add d count) (agg_top_domains data)
                         (st_domain_counts st)\<rparr>;
          st = fold merge_top_url (agg_top_urls data) st;
          st = st\<lparr>st_hourly := merge_hourly (agg_hourly_distribution data) (st_hourly st)\<rparr>;
          st = st\<lparr>st_weekday_counts :=
                    fold (\<lambda>(d, count). counter_add d count) (agg_weekday_distribution data)
                         (st_weekday_counts st)\<rparr>;
          st = st\<lparr>st_top_search_queries :=
                    fold (\<lambda>(q, count) c. if q \<noteq> [] then counter_add q count c else c)
                         (agg_top_search_queries data) (st_top_search_queries st)\<rparr>
      in st)"

record MergedAggregate =
  m_periods :: "string list"
  m_total_visits :: int
  m_unique_urls :: int
  m_top_domains :: "(string \<times> int) list"
  m_top_urls :: "(string \<times> int \<times> string option) list"
  m_daily_summary :: "(string option \<times> int \<times> int) list"
  m_hourly_distribution :: "int list"
  m_weekday_distribution :: "(string \<times> int) list"
  m_top_search_queries :: "(string \<times> int) list"

definition initial_state :: MergeState where
  "initial_state =
     \<lparr>st_total_visits = 0, st_unique_urls = {}, st_domain_counts = [], st_url_counts = [],
      st_url_to_title = Map.empty, st_hourly = replicate 24 0, st_weekday_counts = [],
      st_top_search_queries = [], st_periods = []\<rparr>"

text \<open>The value returned is the dictionary that the source writes to \<open>aggregate_merged.json\<close>.\<close>

definition merge_aggregate ::
  "Aggregate list list \<Rightarrow> (string option \<times> int \<times> int) list \<Rightarrow> MergedAggregate" where
  "merge_aggregate sources daily_summary =
     (let st = fold (\<lambda>aggregate_files st. fold merge_file aggregate_files st) sources initial_state
      in \<lparr>m_periods = filter (\<lambda>p. p \<noteq> []) (st_periods st),
          m_total_visits = st_total_visits st,
          m_unique_urls = int (card (st_unique_urls st)),
          m_top_domains = most_common 20 (st_domain_counts st),
          m_top_urls = map (\<lambda>(u, count). (u, count, st_url_to_title st u))
                           (most_common 50 (st_url_counts st)),
          m_daily_summary = daily_summary,
          m_hourly_distribution = st_hourly st,
          m_weekday_distribution = st_weekday_counts st,
          m_top_search_queries = most_common 50 (st_top_search_queries st)\<rparr>)"

section \<open>The library functions on plain ASCII input, for the examples\<close>

text \<open>
  The examples need the four library functions at concrete arguments. \<open>lower_ascii\<close> maps
  the letters \<open>A\<close> to \<open>Z\<close> to \<open>a\<close> to \<open>z\<close> and keeps every other byte, as \<open>str.lower\<close> does
  on ASCII text. The others follow CPython's \<open>urlsplit\<close> and \<open>urlparse\<close> (leading control characters and spaces stripped,
  tab and newline removed, scheme, \<open>//\<close> network location with the check for a lone square
  bracket, fragment, query, \<open>;\<close> parameters of the last path segment), \<open>parse_qsl\<close> with
  its defaults (fields separated by \<open>&\<close>, fields without a value dropped, \<open>+\<close> and \<open>%XX\<close>
  decoded) and \<open>fromisoformat\<close> on the format that the exporter writes,
  \<open>YYYY-MM-DDTHH:MM:SS+00:00\<close> with an optional fraction of six digits. The checks that
  the library makes on non-ASCII host names and on the address inside square brackets
  are left out.
\<close>

definition lower_char :: "char \<Rightarrow> char" where
  "lower_char c = (if CHR ''A'' \<le> c \<and> c \<le> CHR ''Z'' then char_of (of_char c + (32::nat)) else c)"

definition lower_ascii :: lower_fn where
  "lower_ascii s = map lower_char s"

definition split_first :: "char \<Rightarrow> string \<Rightarrow> string \<times> string" where
  "split_first c s = (takeWhile (\<lambda>x. x \<noteq> c) s, drop 1 (dropWhile (\<lambda>x. x \<noteq> c) s))"

definition is_alpha :: "char \<Rightarrow> bool" where
  "is_alpha c = ((CHR ''a'' \<le> c \<and> c \<le> CHR ''z'') \<or> (CHR ''A'' \<le> c \<and> c \<le> CHR ''Z''))"

definition is_digit :: "char \<Rightarrow> bool" where
  "is_digit c = (CHR ''0'' \<le> c \<and> c \<le> CHR ''9'')"

definition scheme_char :: "char \<Rightarrow> bool" where
  "scheme_char c = (is_alpha c \<or> is_digit c \<or> c = CHR ''+'' \<or> c = CHR ''-'' \<or> c = CHR ''.'')"

definition uses_params :: "string list" where
  "uses_params = ['''', ''ftp'', ''hdl'', ''prospero'', ''http'', ''imap'', ''https'', ''shttp'',
     ''rtsp'', ''rtspu'', ''sip'', ''sips'', ''mms'', ''sftp'', ''tel'']"

definition splitparams :: "string \<Rightarrow> string \<times> string" where
  "splitparams u =
     (let seg = rev (takeWhile (\<lambda>x. x \<noteq> CHR ''/'') (rev u));
          pre = take (length u - length seg) u
      in if CHR '';'' \<in> set seg
         then (pre @ fst (split_first CHR '';'' seg), snd (split_first CHR '';'' seg))
         else (u, []))"

definition urlparse_ascii :: urlparse_fn where
  "urlparse_ascii url0 =
     (let u = filter (\<lambda>c. c \<noteq> CHR 0x09 \<and> c \<noteq> CHR 0x0A \<and> c \<noteq> CHR 0x0D)
                     (dropWhile (\<lambda>c. c \<le> CHR 0x20) url0);
          pre = takeWhile (\<lambda>c. c \<noteq> CHR '':'') u;
          has_scheme = (CHR '':'' \<in> set u \<and> pre \<noteq> [] \<and> is_alpha (hd pre) \<and> list_all scheme_char pre);
          sch = (if has_scheme then lower_ascii pre else []);
          u = (if has_scheme then drop (length pre + 1) u else u);
          has_netloc = prefix ''//'' u;
          delim = (\<lambda>c. c = CHR ''/'' \<or> c = CHR ''?'' \<or> c = CHR ''#'');
          loc = (if has_netloc then takeWhile (\<lambda>c. \<not> delim c) (drop 2 u) else []);
          u = (if has_netloc then dropWhile (\<lambda>c. \<not> delim c) (drop 2 u) else u)
      in if (CHR ''['' \<in> set loc) \<noteq> (CHR '']'' \<in> set loc) then Inl ValueError
         else
           (let frag = snd (split_first CHR ''#'' u);
                u = fst (split_first CHR ''#'' u);
                q = snd (split_first CHR ''?'' u);
                u = fst (split_first CHR ''?'' u);
                sp = (if sch \<in> set uses_params then splitparams u else (u, []))
            in Inr \<lparr>scheme = sch, netloc = loc, path = fst sp, params = snd sp, query = q,
                    fragment = frag\<rparr>))"

fun split_on :: "char \<Rightarrow> string \<Rightarrow> string list" where
  "split_on c [] = [[]]"
| "split_on c (x # xs) =
     (if x = c then [] # split_on c xs
      else (case split_on c xs of [] \<Rightarrow> [[x]] | p # ps \<Rightarrow> (x # p) # ps))"

definition hex_val :: "char \<Rightarrow> nat option" where
  "hex_val c =
     (if is_digit c then Some (of_char c - 48)
      else if CHR ''a'' \<le> c \<and> c \<le> CHR ''f'' then Some (of_char c - 87)
      else if CHR ''A'' \<le> c \<and> c \<le> CHR ''F'' then Some (of_char c - 55)
      else None)"

fun unquote :: "string \<Rightarrow> string" where
  "unquote (p # a # b # cs) =
     (if p = CHR ''%'' then
        (case (hex_val a, hex_val b) of
           (Some x, Some y) \<Rightarrow> char_of (16 * x + y) # unquote cs
         | _ \<Rightarrow> p # unquote (a # b # cs))
      else p # unquote (a # b # cs))"
| "unquote cs = cs"

definition unquote_plus :: "string \<Rightarrow> string" where
  "unquote_plus s = unquote (map (\<lambda>c. if c = CHR ''+'' then CHR '' '' else c) s)"

definition parse_qsl :: "string \<Rightarrow> (string \<times> string) list" where
  "parse_qsl qs =
     concat (map (\<lambda>name_value.
                    if name_value \<noteq> [] \<and> snd (split_first CHR ''='' name_value) \<noteq> []
                    then [(unquote_plus (fst (split_first CHR ''='' name_value)),
                           unquote_plus (snd (split_first CHR ''='' name_value)))]
                    else [])
                 (split_on CHR ''&'' qs))"

definition parse_qs_ascii :: parse_qs_fn where
  "parse_qs_ascii qs = map_of (fold (\<lambda>(n, v). dict_append n v) (parse_qsl qs) [])"

definition digits_val :: "string \<Rightarrow> nat option" where
  "digits_val s =
     (if s \<noteq> [] \<and> list_all is_digit s
      then Some (fold (\<lambda>c n. 10 * n + (of_char c - 48)) s 0)
      else None)"

definition fromisoformat_utc :: fromisoformat_fn where
  "fromisoformat_utc s =
     (let frac = (if length s = 32 then take 7 (drop 19 s) else []);
          us = (if length s = 32 then digits_val (drop 20 (take 26 s)) else Some 0);
          tail = (if length s = 32 then drop 26 s else drop 19 s)
      in if (length s = 25 \<or> (length s = 32 \<and> take 1 frac = ''.''))
            \<and> tail = ''+00:00''
            \<and> [s ! 4, s ! 7, s ! 10, s ! 13, s ! 16] = ''--T::''
         then (case those [digits_val (take 4 s), digits_val (take 2 (drop 5 s)),
                           digits_val (take 2 (drop 8 s)), digits_val (take 2 (drop 11 s)),
                           digits_val (take 2 (drop 14 s)), digits_val (take 2 (drop 17 s)), us] of
                 Some [y, mo, d, h, mi, sec, u] \<Rightarrow>
                   if 1 \<le> y \<and> 1 \<le> mo \<and> mo \<le> 12 \<and> 1 \<le> d \<and> d \<le> days_in_month y mo
                      \<and> h < 24 \<and> mi < 60 \<and> sec < 60
                   then Inr \<lparr>year = y, month = mo, day = d, hour = h, minute = mi,
                             second = sec, microsecond = u\<rparr>
                   else Inl ValueError
               | _ \<Rightarrow> Inl ValueError)
         else Inl ValueError)"

section \<open>Tables for the statements about decode\_transition\<close>

text \<open>
  The names of the core values 0 to 10 in order, the category that belongs to a core
  value, and the qualifiers with the positions of their bits.
\<close>

definition core_names :: "string list" where
  "core_names = [''link'', ''typed'', ''auto_bookmark'', ''auto_subframe'', ''manual_subframe'',
     ''generated'', ''auto_toplevel'', ''form_submit'', ''reload'', ''keyword'', ''keyword_generated'']"

definition category_of :: "nat \<Rightarrow> string" where
  "category_of n = (if n \<le> 10 then core_names ! n else ''unknown_'' @ str_nat n)"

definition qualifier_table :: "(nat \<times> string) list" where
  "qualifier_table =
       [(24, ''chain_start''), (25, ''chain_end''), (26, ''client_redirect''),
        (27, ''server_redirect''), (28, ''is_redirect''), (29, ''from_address_bar''),
        (30, ''home_page''), (31, ''user_gesture'')]"

section \<open>Statements about rankings\<close>

text \<open>
  \<open>first_index xs x\<close> is the position of the first occurrence of \<open>x\<close> in \<open>xs\<close>.
  \<open>ranked keys L\<close> says that \<open>L\<close> is the full ranking of the items of \<open>keys\<close>: every item
  once with the number of its occurrences, by descending count, and among equal counts
  by the first occurrence. \<open>recognised_queries\<close> is the sequence of the non-empty search
  queries of the records, in the order of the records.
\<close>

definition first_index :: "'a list \<Rightarrow> 'a \<Rightarrow> nat" where
  "first_index xs x = length (takeWhile (\<lambda>y. y \<noteq> x) xs)"

definition ranked :: "'k list \<Rightarrow> ('k \<times> int) list \<Rightarrow> bool" where
  "ranked keys L \<longleftrightarrow>
     distinct (map fst L) \<and> set (map fst L) = set keys
     \<and> (\<forall>kc \<in> set L. snd kc = int (count_list keys (fst kc)))
     \<and> (\<forall>j < length L. \<forall>i < j.
           snd (L ! j) < snd (L ! i)
           \<or> (snd (L ! j) = snd (L ! i) \<and> first_index keys (fst (L ! i)) < first_index keys (fst (L ! j))))"

definition recognised_queries ::
  "lower_fn \<Rightarrow> urlparse_fn \<Rightarrow> parse_qs_fn \<Rightarrow> VisitRecord list \<Rightarrow> string list" where
  "recognised_queries lower urlparse parse_qs records =
     concat (map (\<lambda>r. case extract_search_query lower urlparse parse_qs (url r) of
                          Inr (Some q) \<Rightarrow> (if q \<noteq> [] then [q] else [])
                        | _ \<Rightarrow> []) records)"

section \<open>An export of four visits\<close>

definition example_records :: "VisitRecord list" where
  "example_records =
     [\<lparr>url = ''https://example.com/'', title = ''Example'', timestamp = ''2024-01-01T10:00:00Z'',
       domain = ''example.com'', source = None\<rparr>,
      \<lparr>url = ''https://search.brave.com/search?q=rust'', title = '''',
       timestamp = ''2024-01-01T12:30:00Z'', domain = ''search.brave.com'', source = None\<rparr>,
      \<lparr>url = ''https://example.com/'', title = ''Example Domain'',
       timestamp = ''2024-01-01T15:00:00Z'', domain = ''example.com'', source = None\<rparr>,
      \<lparr>url = ''https://news.example.org/a'', title = ''News'', timestamp = ''2024-01-02T09:00:00Z'',
       domain = ''news.example.org'', source = None\<rparr>]"

definition example_start :: datetime where
  "example_start = \<lparr>year = 2023, month = 12, day = 12, hour = 8, minute = 0, second = 0, microsecond = 0\<rparr>"

definition example_end :: datetime where
  "example_end = \<lparr>year = 2024, month = 1, day = 2, hour = 8, minute = 0, second = 0, microsecond = 0\<rparr>"

definition example_aggregate :: Aggregate where
  "example_aggregate =
     \<lparr>agg_period = ''2023-12-12 to 2024-01-02'',
      agg_total_visits = 4,
      agg_unique_urls = 3,
      agg_top_domains = [(''example.com'', 2), (''search.brave.com'', 1), (''news.example.org'', 1)],
      agg_top_urls = [(''https://example.com/'', 2, Some ''Example''),
                      (''https://search.brave.com/search?q=rust'', 1, None),
                      (''https://news.example.org/a'', 1, Some ''News'')],
      agg_daily_summary = [(''2024-01-01'', 3, 2), (''2024-01-02'', 1, 1)],
      agg_hourly_distribution = [0, 0, 0, 0, 0, 0, 0, 0, 0, 1, 1, 0, 1, 0, 0, 1, 0, 0, 0, 0, 0, 0, 0, 0],
      agg_weekday_distribution = [(''Mon'', 3), (''Tue'', 1), (''Wed'', 0), (''Thu'', 0), (''Fri'', 0),
                                  (''Sat'', 0), (''Sun'', 0)],
      agg_top_search_queries = [(''rust'', 1)]\<rparr>"

section \<open>decode\_transition: the category\<close>

lemma and_255_take_bit: "(t::int) AND 0xFF = take_bit 8 t"
proof -
  have "t AND mask 8 = take_bit 8 t" by (simp only: take_bit_eq_mask)
  then show ?thesis by (simp add: mask_eq_exp_minus_1)
qed

lemma str_nat_nonempty: "str_nat n \<noteq> []"
  by (subst str_nat.simps) simp

lemma digit_char_inj:
  assumes "a < 10" "b < 10" "digit_char a = digit_char b"
  shows "a = b"
proof -
  have "distinct ''0123456789''" by simp
  with assms show ?thesis by (simp add: digit_char_def nth_eq_iff_index_eq)
qed

lemma str_nat_inj: "str_nat n = str_nat m \<Longrightarrow> n = m"
proof (induction n arbitrary: m rule: str_nat.induct)
  case (1 n)
  show ?case
  proof (cases "n < 10")
    case True
    note n = this
    show ?thesis
    proof (cases "m < 10")
      case True
      with n 1(2) have "digit_char n = (digit_char m)"
        by (simp add: str_nat.simps[of n] str_nat.simps[of m])
      with n True show ?thesis by (rule digit_char_inj)
    next
      case False
      with n 1(2) have "[digit_char n] = str_nat (m div 10) @ [digit_char (m mod 10)]"
        by (simp add: str_nat.simps[of n] str_nat.simps[of m])
      then show ?thesis using str_nat_nonempty[of "m div 10"] by (cases "str_nat (m div 10)") auto
    qed
  next
    case False
    note n = this
    show ?thesis
    proof (cases "m < 10")
      case True
      with n 1(2) have "[digit_char m] = str_nat (n div 10) @ [digit_char (n mod 10)]"
        by (simp add: str_nat.simps[of n] str_nat.simps[of m])
      then show ?thesis using str_nat_nonempty[of "n div 10"] by (cases "str_nat (n div 10)") auto
    next
      case False
      with n 1(2) have eq: "str_nat (n div 10) @ [digit_char (n mod 10)] = str_nat (m div 10) @ [digit_char (m mod 10)]"
        by (simp add: str_nat.simps[of n] str_nat.simps[of m])
      then have "str_nat (n div 10) = str_nat (m div 10)" by simp
      with 1(1)[OF n] have d: "n div 10 = m div 10" by simp
      from eq have "digit_char (n mod 10) = (digit_char (m mod 10))" by simp
      then have "n mod 10 = m mod 10" by (intro digit_char_inj) auto
      with d show ?thesis by (metis div_mult_mod_eq)
    qed
  qed
qed

lemma core_map_table: "\<forall>k \<in> set [0..<11]. core_map (int k) = Some (core_names ! k)"
  by code_simp

lemma core_map_named: "n \<le> 10 \<Longrightarrow> core_map (int n) = Some (core_names ! n)"
  using core_map_table by simp

lemma core_map_unknown: "10 < n \<Longrightarrow> core_map (int n) = None"
  by (simp add: core_map_def)

lemma category_of_core: "fst (decode_transition t) = category_of (nat (take_bit 8 t))"
proof -
  define n where "n = nat (take_bit 8 t)"
  have c: "t AND 0xFF = int n" by (simp add: n_def and_255_take_bit)
  show ?thesis
  proof (cases "n \<le> 10")
    case True
    then show ?thesis
      unfolding n_def[symmetric] by (simp add: decode_transition_def Let_def c core_map_named category_of_def)
  next
    case False
    then show ?thesis
      unfolding n_def[symmetric]
      by (simp add: decode_transition_def Let_def c core_map_unknown str_int_def category_of_def)
  qed
qed

lemma names_table: "\<forall>k \<in> set [0..<11]. take 8 (core_names ! k) \<noteq> ''unknown_''"
  by code_simp

lemma named_not_unknown: "n \<le> 10 \<Longrightarrow> core_names ! n \<noteq> ''unknown_'' @ s"
proof
  assume n: "n \<le> 10" and e: "core_names ! n = ''unknown_'' @ s"
  from n have "n \<in> set [0..<11]" by simp
  with names_table have "take 8 (core_names ! n) \<noteq> ''unknown_''" by blast
  with e show False by simp
qed

lemma category_of_inj: "category_of n = category_of m \<Longrightarrow> n = m"
proof -
  assume e: "category_of n = category_of m"
  have d: "distinct core_names" by (simp add: core_names_def)
  have l: "length core_names = 11" by (simp add: core_names_def)
  consider "n \<le> 10" "m \<le> 10" | "n \<le> 10" "10 < m" | "10 < n" "m \<le> 10" | "10 < n" "10 < m"
    by linarith
  then show ?thesis
  proof cases
    case 1
    with e have "core_names ! n = core_names ! m" by (simp add: category_of_def)
    with 1 d l show ?thesis by (simp add: nth_eq_iff_index_eq)
  next
    case 2
    with e named_not_unknown[of n "str_nat m"] show ?thesis by (simp add: category_of_def)
  next
    case 3
    with e named_not_unknown[of m "str_nat n"] show ?thesis by (simp add: category_of_def)
  next
    case 4
    with e show ?thesis by (simp add: category_of_def str_nat_inj)
  qed
qed

text \<open>
  C5. For every transition code (every integer, so every 32-bit code), the category is
  determined by the low 8 bits: the cores 0 to 10 give the eleven fixed names, every
  other core gives \<open>unknown_\<close> followed by the decimal digits of the core. Two codes
  get the same category exactly when their low 8 bits agree, so the category keeps the
  numeric value of the core. The function is total: decoding never fails.
\<close>

theorem decode_transition_category:
  "fst (decode_transition t) =
     (if nat (take_bit 8 t) \<le> 10
      then [''link'', ''typed'', ''auto_bookmark'', ''auto_subframe'', ''manual_subframe'',
            ''generated'', ''auto_toplevel'', ''form_submit'', ''reload'', ''keyword'',
            ''keyword_generated''] ! nat (take_bit 8 t)
      else ''unknown_'' @ str_nat (nat (take_bit 8 t)))
   \<and> (fst (decode_transition t) = fst (decode_transition t') \<longleftrightarrow> take_bit 8 t = take_bit 8 t')"
proof
  show "fst (decode_transition t) =
     (if nat (take_bit 8 t) \<le> 10
      then [''link'', ''typed'', ''auto_bookmark'', ''auto_subframe'', ''manual_subframe'',
            ''generated'', ''auto_toplevel'', ''form_submit'', ''reload'', ''keyword'',
            ''keyword_generated''] ! nat (take_bit 8 t)
      else ''unknown_'' @ str_nat (nat (take_bit 8 t)))"
    by (simp only: category_of_core category_of_def core_names_def)
  have "category_of (nat (take_bit 8 t)) = category_of (nat (take_bit 8 t'))
      \<longleftrightarrow> take_bit 8 t = take_bit 8 t'"
    using category_of_inj[of "nat (take_bit 8 t)" "nat (take_bit 8 t')"]
    by (auto simp: eq_nat_nat_iff)
  then show "fst (decode_transition t) = fst (decode_transition t') \<longleftrightarrow> take_bit 8 t = take_bit 8 t'"
    by (simp only: category_of_core)
qed

text \<open>The boundary: core 10 is named, core 11 is \<open>unknown_11\<close>.\<close>

theorem decode_transition_category_witness:
  "fst (decode_transition 11) = ''unknown_11'' \<and> fst (decode_transition 10) = ''keyword_generated''
   \<and> fst (decode_transition 0x81000008) = ''reload''
   \<and> fst (decode_transition 0x1FF) = ''unknown_255''
   \<and> fst (decode_transition 11) \<noteq> fst (decode_transition 12)"
  using decode_transition_category[of 11 12] decode_transition_category[of 10 0]
    decode_transition_category[of "0x81000008" 0] decode_transition_category[of "0x1FF" 0]
  by (auto simp add: str_nat.simps digit_char_def)


section \<open>decode\_transition: the qualifiers\<close>

lemma and_pow2: "(t::int) AND 2 ^ k = (if bit t k then 2 ^ k else 0)"
  by (rule bit_eqI) (auto simp: bit_and_iff bit_exp_iff)

lemma mask_test_bit: "((t::int) AND 2 ^ k \<noteq> 0) = bit t k"
  by (simp add: and_pow2)

lemma mask_set_bit: "((t::int) AND 2 ^ k = 2 ^ k) = bit t k"
  by (simp add: and_pow2)

lemma fold_append_if:
  "fold (\<lambda>(k, name). append_if t (2 ^ k) name) xs qs =
     qs @ map snd (filter (\<lambda>(k, name). bit t k) xs)"
  by (induction xs arbitrary: qs) (auto simp: append_if_def mask_test_bit)

lemma qualifier_bits:
  "snd (decode_transition t) = map snd (filter (\<lambda>(k, name). bit t k) qualifier_table)"
proof -
  have "snd (decode_transition t) = fold (\<lambda>(k, name). append_if t (2 ^ k) name) qualifier_table []"
    by (simp add: decode_transition_def Let_def qualifier_table_def)
  then show ?thesis by (simp only: fold_append_if append_Nil)
qed

lemma filter_masks:
  "map snd (filter (\<lambda>(m, name). (t::int) AND m = m) (map (\<lambda>(k, name). (2 ^ k, name)) xs)) =
     map snd (filter (\<lambda>(k, name). bit t k) xs)"
  by (induction xs) (auto simp: mask_set_bit)

text \<open>
  C6. For every transition code, the qualifier list holds exactly the names whose mask
  is set in the code, in the order of ascending masks; the qualifiers of a combination
  of two codes are the union of the qualifiers of each.
\<close>

theorem decode_transition_qualifiers:
  "snd (decode_transition t) =
     map snd (filter (\<lambda>(m, name). t AND m = m)
       [(0x01000000, ''chain_start''), (0x02000000, ''chain_end''),
        (0x04000000, ''client_redirect''), (0x08000000, ''server_redirect''),
        (0x10000000, ''is_redirect''), (0x20000000, ''from_address_bar''),
        (0x40000000, ''home_page''), (0x80000000, ''user_gesture'')])
   \<and> set (snd (decode_transition (a OR b))) =
       set (snd (decode_transition a)) \<union> set (snd (decode_transition b))"
proof
  have "[(0x01000000::int, ''chain_start''), (0x02000000, ''chain_end''),
        (0x04000000, ''client_redirect''), (0x08000000, ''server_redirect''),
        (0x10000000, ''is_redirect''), (0x20000000, ''from_address_bar''),
        (0x40000000, ''home_page''), (0x80000000, ''user_gesture'')]
      = map (\<lambda>(k, name). (2 ^ k, name)) qualifier_table" (is "?L = _")
    by (simp add: qualifier_table_def)
  then have "map snd (filter (\<lambda>(m, name). t AND m = m) ?L) =
      map snd (filter (\<lambda>(k, name). bit t k) qualifier_table)"
    by (simp only: filter_masks)
  then show "snd (decode_transition t) = map snd (filter (\<lambda>(m, name). t AND m = m) ?L)"
    by (simp only: qualifier_bits)
  show "set (snd (decode_transition (a OR b))) =
       set (snd (decode_transition a)) \<union> set (snd (decode_transition b))"
    unfolding qualifier_bits by (auto simp: bit_or_iff)
qed

text \<open>One bit gives one qualifier; two bits give both, lowest mask first.\<close>

theorem decode_transition_qualifiers_witness:
  "snd (decode_transition 0x04000000) = [''client_redirect'']
   \<and> snd (decode_transition 0x81000008) = [''chain_start'', ''user_gesture'']
   \<and> set (snd (decode_transition (0x80000000 OR 0x01000000))) = {''user_gesture''} \<union> {''chain_start''}"
  using decode_transition_qualifiers[of "0x04000000" "0x80000000" "0x01000000"]
    decode_transition_qualifiers[of "0x81000008"]
    decode_transition_qualifiers[of "0x80000000"]
    decode_transition_qualifiers[of "0x01000000"]
  by simp

section \<open>Counter and most\_common\<close>

lemma counter_add_keys:
  "map fst (counter_add k v c) = (if k \<in> set (map fst c) then map fst c else map fst c @ [k])"
proof (induction c)
  case Nil
  then show ?case by simp
next
  case (Cons a c)
  obtain k' n where a: "a = (k', n)" by (cases a)
  show ?case using Cons unfolding a by (cases "k = k'") auto
qed

lemma counter_add_new: "k \<notin> set (map fst c) \<Longrightarrow> counter_add k v c = c @ [(k, v)]"
  by (induction c) auto

lemma map_of_counter_add:
  "map_of (counter_add k v c) k' =
     (if k' = k then Some (case map_of c k of None \<Rightarrow> v | Some n \<Rightarrow> n + v) else map_of c k')"
proof (induction c)
  case Nil
  then show ?case by simp
next
  case (Cons a c)
  obtain k0 n where a: "a = (k0, n)" by (cases a)
  show ?case using Cons unfolding a by (cases "k = k0") auto
qed

lemma Counter_snoc: "Counter (xs @ [x]) = counter_add x 1 (Counter xs)"
  by (simp add: Counter_def)

lemma Counter_Nil: "Counter [] = []"
  by (simp add: Counter_def)

lemma Counter_keys_set: "set (map fst (Counter xs)) = set xs"
  by (induction xs rule: rev_induct) (auto simp: Counter_snoc counter_add_keys Counter_Nil)

lemma Counter_distinct: "distinct (map fst (Counter xs))"
  by (induction xs rule: rev_induct) (auto simp: Counter_snoc counter_add_keys Counter_Nil)

lemma map_of_Counter:
  "map_of (Counter xs) k = (if k \<in> set xs then Some (int (count_list xs k)) else None)"
proof (induction xs rule: rev_induct)
  case Nil
  then show ?case by (simp add: Counter_Nil)
next
  case (snoc x xs)
  then show ?case by (auto simp: Counter_snoc map_of_counter_add)
qed

lemma Counter_count: "(k, c) \<in> set (Counter xs) \<Longrightarrow> c = int (count_list xs k)"
proof -
  assume "(k, c) \<in> set (Counter xs)"
  then have "map_of (Counter xs) k = Some c" using Counter_distinct[of xs] by simp
  then show ?thesis by (simp add: map_of_Counter split: if_splits)
qed


lemma first_index_snoc_old: "k \<in> set xs \<Longrightarrow> first_index (xs @ [x]) k = first_index xs k"
  unfolding first_index_def by (induction xs) auto

lemma first_index_less: "k \<in> set xs \<Longrightarrow> first_index xs k < length xs"
  unfolding first_index_def by (induction xs) auto

lemma first_index_snoc_new: "x \<notin> set xs \<Longrightarrow> first_index (xs @ [x]) x = length xs"
  unfolding first_index_def by (induction xs) auto



lemma Counter_keys_image: "fst ` set (Counter xs) = set xs"
  using Counter_keys_set[of xs] by simp

lemma Counter_key_mem: "a \<in> set (Counter xs) \<Longrightarrow> fst a \<in> set xs"
  using Counter_keys_image[of xs] by blast

lemma Counter_order:
  "sorted_wrt (\<lambda>a b. first_index xs (fst a) < first_index xs (fst b)) (Counter xs)"
proof (induction xs rule: rev_induct)
  case Nil
  then show ?case by (simp add: Counter_Nil)
next
  case (snoc x xs)
  have old: "sorted_wrt (\<lambda>a b. first_index (xs @ [x]) (fst a) < first_index (xs @ [x]) (fst b)) (Counter xs)"
  proof (rule sorted_wrt_mono_rel[OF _ snoc])
    fix a b :: "'a \<times> int"
    assume a: "a \<in> set (Counter xs)" and b: "b \<in> set (Counter xs)"
      and l: "first_index xs (fst a) < first_index xs (fst b)"
    have "first_index (xs @ [x]) (fst a) = first_index xs (fst a)"
      using Counter_key_mem[OF a] by (rule first_index_snoc_old)
    moreover have "first_index (xs @ [x]) (fst b) = first_index xs (fst b)"
      using Counter_key_mem[OF b] by (rule first_index_snoc_old)
    ultimately show "first_index (xs @ [x]) (fst a) < first_index (xs @ [x]) (fst b)"
      using l by simp
  qed
  show ?case
  proof (cases "x \<in> set xs")
    case True
    then have "x \<in> fst ` set (Counter xs)" by (simp only: Counter_keys_image)
    then have "map fst (counter_add x 1 (Counter xs)) = map fst (Counter xs)"
      by (simp add: counter_add_keys)
    moreover have "sorted_wrt (\<lambda>a b. first_index (xs @ [x]) a < first_index (xs @ [x]) b) (map fst (Counter xs))"
      using old by (simp only: sorted_wrt_map)
    ultimately have "sorted_wrt (\<lambda>a b. first_index (xs @ [x]) a < first_index (xs @ [x]) b)
        (map fst (counter_add x 1 (Counter xs)))" by (simp only:)
    then show ?thesis by (simp only: Counter_snoc sorted_wrt_map)
  next
    case False
    then have "x \<notin> fst ` set (Counter xs)" by (simp only: Counter_keys_image not_False_eq_True)
    then have "x \<notin> set (map fst (Counter xs))" by simp
    then have e: "counter_add x 1 (Counter xs) = Counter xs @ [(x, 1)]" by (rule counter_add_new)
    have "\<forall>a \<in> set (Counter xs). first_index (xs @ [x]) (fst a) < first_index (xs @ [x]) x"
    proof
      fix a assume a: "a \<in> set (Counter xs)"
      have "first_index (xs @ [x]) (fst a) = first_index xs (fst a)"
        using Counter_key_mem[OF a] by (rule first_index_snoc_old)
      moreover have "first_index xs (fst a) < length xs"
        using Counter_key_mem[OF a] by (rule first_index_less)
      moreover have "first_index (xs @ [x]) x = length xs"
        using False by (rule first_index_snoc_new)
      ultimately show "first_index (xs @ [x]) (fst a) < first_index (xs @ [x]) x" by simp
    qed
    with old show ?thesis by (simp add: Counter_snoc e sorted_wrt_append)
  qed
qed


lemma sorted_wrt_filter_nth:
  assumes "sorted_wrt R (filter P L)" "i < j" "j < length L" "P (L ! i)" "P (L ! j)"
  shows "R (L ! i) (L ! j)"
proof -
  have i: "i < length L" using assms(2,3) by simp
  have split: "L = take i L @ L ! i # drop (Suc i) L" using i by (rule id_take_nth_drop)
  have "filter P L = filter P (take i L) @ filter P (L ! i # drop (Suc i) L)"
    by (subst split) (simp only: filter_append)
  then have "filter P L = filter P (take i L) @ L ! i # filter P (drop (Suc i) L)"
    using assms(4) by simp
  with assms(1) have all: "\<forall>y \<in> set (filter P (drop (Suc i) L)). R (L ! i) y"
    by (simp add: sorted_wrt_append)
  have "L ! j = drop (Suc i) L ! (j - Suc i)" using assms(2,3) by simp
  moreover have "j - Suc i < length (drop (Suc i) L)" using assms(2,3) by simp
  ultimately have "L ! j \<in> set (drop (Suc i) L)" by (metis nth_mem)
  with assms(5) have "L ! j \<in> set (filter P (drop (Suc i) L))" by simp
  with all show ?thesis by blast
qed


lemma sort_key_rank:
  assumes "sorted_wrt R xs" "i < j" "j < length xs"
  shows "f (sort_key f xs ! i) < f (sort_key f xs ! j)
       \<or> (f (sort_key f xs ! i) = f (sort_key f xs ! j) \<and> R (sort_key f xs ! i) (sort_key f xs ! j))"
proof -
  define L where "L = sort_key f xs"
  have len: "j < length L" using assms(3) by (simp add: L_def)
  have ilen: "i < length L" using assms(2) len by simp
  have "sorted (map f L)" unfolding L_def by (rule sorted_sort_key)
  then have "map f L ! i \<le> map f L ! j"
    using assms(2) len by (simp only: sorted_iff_nth_mono_less length_map)
  then have le: "f (L ! i) \<le> f (L ! j)" using len ilen by (simp only: nth_map)
  show ?thesis
  proof (cases "f (L ! i) = f (L ! j)")
    case True
    define c where "c = f (L ! j)"
    have "filter (\<lambda>y. f y = c) L = filter (\<lambda>y. f y = c) xs"
      unfolding L_def by (rule sort_key_stable)
    moreover have "sorted_wrt R (filter (\<lambda>y. f y = c) xs)" using assms(1) by (rule sorted_wrt_filter)
    ultimately have sw: "sorted_wrt R (filter (\<lambda>y. f y = c) L)" by (simp only:)
    have pi: "f (L ! i) = c" using True by (simp only: c_def)
    have pj: "f (L ! j) = c" by (simp only: c_def)
    have "R (L ! i) (L ! j)"
      by (rule sorted_wrt_filter_nth[where P = "\<lambda>y. f y = c", OF sw assms(2) len pi pj])
    with True show ?thesis unfolding L_def by blast
  next
    case False
    with le show ?thesis unfolding L_def by (simp only: order_le_less) blast
  qed
qed

lemma ranked_Counter: "ranked xs (sort_key (\<lambda>kc. - snd kc) (Counter xs))"
proof -
  let ?L = "sort_key (\<lambda>kc. - snd kc) (Counter xs)"
  have d: "distinct (map fst ?L)" using Counter_distinct[of xs] by (simp add: distinct_map)
  have s: "set (map fst ?L) = set xs" using Counter_keys_set[of xs] by simp
  have c: "\<forall>kc \<in> set ?L. snd kc = int (count_list xs (fst kc))"
  proof
    fix kc assume "kc \<in> set ?L"
    then have "(fst kc, snd kc) \<in> set (Counter xs)" by simp
    then show "snd kc = int (count_list xs (fst kc))" by (rule Counter_count)
  qed
  have o: "\<forall>j < length ?L. \<forall>i < j.
           snd (?L ! j) < snd (?L ! i)
           \<or> (snd (?L ! j) = snd (?L ! i) \<and> first_index xs (fst (?L ! i)) < first_index xs (fst (?L ! j)))"
  proof (intro allI impI)
    fix j i
    assume j: "j < length ?L" and i: "i < j"
    from j have j': "j < length (Counter xs)" by simp
    from sort_key_rank[OF Counter_order i j', where f = "\<lambda>kc. - snd kc"]
    show "snd (?L ! j) < snd (?L ! i)
           \<or> (snd (?L ! j) = snd (?L ! i) \<and> first_index xs (fst (?L ! i)) < first_index xs (fst (?L ! j)))"
      by auto
  qed
  show ?thesis unfolding ranked_def using d s c o by (intro conjI)
qed


section \<open>build\_aggregate\<close>

lemma collect_queries_Inr:
  "collect_queries lower urlparse parse_qs rs = Inr qs \<Longrightarrow> qs = recognised_queries lower urlparse parse_qs rs"
proof (induction rs arbitrary: qs)
  case Nil
  then show ?case by (simp add: recognised_queries_def)
next
  case (Cons r rs)
  from Cons.prems obtain q qs' where
    q: "extract_search_query lower urlparse parse_qs (url r) = Inr q" and
    qs': "collect_queries lower urlparse parse_qs rs = Inr qs'" and
    e: "qs = (case q of Some s \<Rightarrow> (if s \<noteq> [] then s # qs' else qs') | None \<Rightarrow> qs')"
    by (auto split: sum.splits)
  from Cons.IH[OF qs'] have "qs' = recognised_queries lower urlparse parse_qs rs" .
  with q e show ?case by (auto simp: recognised_queries_def split: option.splits)
qed

lemma build_aggregate_Inr:
  assumes "build_aggregate lower urlparse parse_qs fromisoformat records by_date period_start period_end = Inr agg"
  shows "\<exists>hourly weekdays.
      collect_queries lower urlparse parse_qs records = Inr (recognised_queries lower urlparse parse_qs records)
    \<and> hourly_distribution fromisoformat records = Inr hourly
    \<and> weekday_distribution fromisoformat records = Inr weekdays
    \<and> agg_total_visits agg = int (length records)
    \<and> agg_unique_urls agg = len_url_set records
    \<and> agg_top_domains agg = most_common 20 (Counter (filter (\<lambda>d. d \<noteq> []) (map domain records)))
    \<and> agg_top_urls agg = map (\<lambda>(u, count). (u, count, url_to_title_of records u))
                             (most_common 50 (Counter (filter (\<lambda>u. u \<noteq> []) (map url records))))
    \<and> agg_top_search_queries agg = most_common 50 (Counter (recognised_queries lower urlparse parse_qs records))
    \<and> agg_hourly_distribution agg = hourly
    \<and> agg_weekday_distribution agg = weekdays"
proof -
  from assms obtain qs hourly weekdays where
    a: "collect_queries lower urlparse parse_qs records = Inr qs" and
    b: "hourly_distribution fromisoformat records = Inr hourly" and
    c: "weekday_distribution fromisoformat records = Inr weekdays"
    unfolding build_aggregate_def Let_def by (auto split: sum.splits)
  from a have qs: "qs = recognised_queries lower urlparse parse_qs records" by (rule collect_queries_Inr)
  from assms a b c have "agg =
      \<lparr>agg_period = date_str period_start @ '' to '' @ date_str period_end,
       agg_total_visits = int (length records),
       agg_unique_urls = len_url_set records,
       agg_top_domains = most_common 20 (Counter (filter (\<lambda>d. d \<noteq> []) (map domain records))),
       agg_top_urls = map (\<lambda>(u, count). (u, count, url_to_title_of records u))
                             (most_common 50 (Counter (filter (\<lambda>u. u \<noteq> []) (map url records)))),
       agg_daily_summary = map (\<lambda>(d, v). (d, int (length v), len_url_set v)) (sort_key fst by_date),
       agg_hourly_distribution = hourly,
       agg_weekday_distribution = weekdays,
       agg_top_search_queries = most_common 50 (Counter qs)\<rparr>"
    unfolding build_aggregate_def Let_def by simp
  with a b c qs show ?thesis by simp
qed

lemma most_common_ranked:
  "\<exists>L. ranked xs L \<and> most_common n (Counter xs) = take n L"
  unfolding most_common_def using ranked_Counter[of xs] by blast

section \<open>The export of four visits, evaluated\<close>

lemma example_domains:
  "map domain example_records = map (extract_domain lower_ascii urlparse_ascii) (map url example_records)"
  by code_simp

lemma example_queries:
  "collect_queries lower_ascii urlparse_ascii parse_qs_ascii example_records = Inr [''rust'']"
  by code_simp

lemma example_recognised: "recognised_queries lower_ascii urlparse_ascii parse_qs_ascii example_records = [''rust'']"
  using collect_queries_Inr[OF example_queries] by simp

lemma example_hourly:
  "hourly_distribution fromisoformat_utc example_records = Inr (agg_hourly_distribution example_aggregate)"
  by code_simp

lemma example_weekdays:
  "weekday_distribution fromisoformat_utc example_records = Inr (agg_weekday_distribution example_aggregate)"
  by code_simp

lemma example_top_domains:
  "most_common 20 (Counter (filter (\<lambda>d. d \<noteq> []) (map domain example_records)))
     = agg_top_domains example_aggregate"
  by code_simp

lemma example_top_urls:
  "map (\<lambda>(u, count). (u, count, url_to_title_of example_records u))
       (most_common 50 (Counter (filter (\<lambda>u. u \<noteq> []) (map url example_records))))
     = agg_top_urls example_aggregate"
  by code_simp

lemma example_top_queries:
  "most_common 50 (Counter [''rust'']) = agg_top_search_queries example_aggregate"
  by code_simp

lemma example_unique: "len_url_set example_records = agg_unique_urls example_aggregate"
  by code_simp

lemma example_total: "int (length example_records) = agg_total_visits example_aggregate"
  by code_simp

lemma example_daily:
  "map (\<lambda>(d, v). (d, int (length v), len_url_set v)) (sort_key fst (group_by_date example_records))
     = agg_daily_summary example_aggregate"
  by code_simp

lemma example_period:
  "date_str example_start @ '' to '' @ date_str example_end = agg_period example_aggregate"
  by code_simp

lemma example_build:
  "build_aggregate lower_ascii urlparse_ascii parse_qs_ascii fromisoformat_utc example_records
           (group_by_date example_records) example_start example_end = Inr example_aggregate"
  by (simp only: build_aggregate_def Let_def example_queries sum.case example_hourly
        example_weekdays example_top_domains example_top_urls example_top_queries example_unique
        example_daily example_period example_total)
     (simp add: example_aggregate_def)

section \<open>build\_aggregate: rankings and caps\<close>

text \<open>
  C4. In every aggregate that \<open>build_aggregate\<close> returns, \<open>top_domains\<close>, \<open>top_urls\<close> and
  \<open>top_search_queries\<close> are the first 20, 50 and 50 items of the full ranking of the
  non-empty domains, the non-empty urls and the recognised queries of all records: the
  counts are those over the whole record sequence, the order is by descending count and,
  among equal counts, by first occurrence in the record sequence, and the cap cuts the
  ranking, not the counting.
\<close>

theorem build_aggregate_ranking:
  assumes "build_aggregate lower urlparse parse_qs fromisoformat records by_date period_start period_end = Inr agg"
  shows "\<exists>D U Q.
      ranked (filter (\<lambda>d. d \<noteq> []) (map domain records)) D \<and> agg_top_domains agg = take 20 D
    \<and> ranked (filter (\<lambda>u. u \<noteq> []) (map url records)) U
    \<and> map (\<lambda>(u, count, t). (u, count)) (agg_top_urls agg) = take 50 U
    \<and> ranked (recognised_queries lower urlparse parse_qs records) Q \<and> agg_top_search_queries agg = take 50 Q
    \<and> length (agg_top_domains agg) \<le> 20 \<and> length (agg_top_urls agg) \<le> 50
    \<and> length (agg_top_search_queries agg) \<le> 50"
proof -
  from build_aggregate_Inr[OF assms] have
    d: "agg_top_domains agg = most_common 20 (Counter (filter (\<lambda>d. d \<noteq> []) (map domain records)))" and
    u: "agg_top_urls agg = map (\<lambda>(u, count). (u, count, url_to_title_of records u))
                             (most_common 50 (Counter (filter (\<lambda>u. u \<noteq> []) (map url records))))" and
    q: "agg_top_search_queries agg = most_common 50 (Counter (recognised_queries lower urlparse parse_qs records))"
    by blast+
  obtain D where D: "ranked (filter (\<lambda>d. d \<noteq> []) (map domain records)) D"
    "most_common 20 (Counter (filter (\<lambda>d. d \<noteq> []) (map domain records))) = take 20 D"
    using most_common_ranked by blast
  obtain U where U: "ranked (filter (\<lambda>u. u \<noteq> []) (map url records)) U"
    "most_common 50 (Counter (filter (\<lambda>u. u \<noteq> []) (map url records))) = take 50 U"
    using most_common_ranked by blast
  obtain Q where Q: "ranked (recognised_queries lower urlparse parse_qs records) Q"
    "most_common 50 (Counter (recognised_queries lower urlparse parse_qs records)) = take 50 Q"
    using most_common_ranked by blast
  have pu: "map (\<lambda>(u, count, t). (u, count)) (agg_top_urls agg) = take 50 U"
    unfolding u U(2) by (simp add: case_prod_unfold comp_def)
  have "length (agg_top_domains agg) \<le> 20" unfolding d D(2) by simp
  moreover have "length (agg_top_urls agg) \<le> 50" unfolding u U(2) by simp
  moreover have "length (agg_top_search_queries agg) \<le> 50" unfolding q Q(2) by simp
  ultimately show ?thesis using D U Q d q pu by (intro exI[of _ D] exI[of _ U] exI[of _ Q]) simp
qed


text \<open>
  On the four visits: \<open>search.brave.com\<close> and \<open>news.example.org\<close> both have one visit,
  and the one seen first comes first.
\<close>

theorem build_aggregate_ranking_witness:
  "build_aggregate lower_ascii urlparse_ascii parse_qs_ascii fromisoformat_utc example_records
           (group_by_date example_records) example_start example_end = Inr example_aggregate
   \<and> (\<exists>D U Q.
      ranked [''example.com'', ''search.brave.com'', ''example.com'', ''news.example.org''] D
    \<and> [(''example.com'', 2), (''search.brave.com'', 1), (''news.example.org'', 1)] = take 20 D
    \<and> ranked (filter (\<lambda>u. u \<noteq> []) (map url example_records)) U
    \<and> [(''https://example.com/'', 2), (''https://search.brave.com/search?q=rust'', 1),
         (''https://news.example.org/a'', 1)] = take 50 U
    \<and> ranked [''rust''] Q \<and> [(''rust'', 1)] = take 50 Q)"
  using build_aggregate_ranking[OF example_build] example_build
  by (simp add: example_recognised) (simp add: example_aggregate_def example_records_def)

section \<open>build\_aggregate: titles\<close>

lemma fold_setdefault:
  "fold (\<lambda>r url_to_title.
             if url r \<noteq> [] \<and> title r \<noteq> [] then setdefault (url r) (title r) url_to_title
             else url_to_title) rs m u =
     (case m u of
        Some t \<Rightarrow> Some t
      | None \<Rightarrow> (if u = [] then None
                 else map_option title (find (\<lambda>r. url r = u \<and> title r \<noteq> []) rs)))"
proof (induction rs arbitrary: m)
  case Nil
  then show ?case by (simp split: option.splits)
next
  case (Cons r rs)
  show ?case
  proof (cases "url r \<noteq> [] \<and> title r \<noteq> []")
    case True
    then show ?thesis
      by (auto simp: Cons.IH setdefault_def split: option.splits)
  next
    case False
    then show ?thesis
      by (auto simp: Cons.IH split: option.splits)
  qed
qed

lemma url_to_title_of_first:
  "u \<noteq> [] \<Longrightarrow> url_to_title_of records u = map_option title (find (\<lambda>r. url r = u \<and> title r \<noteq> []) records)"
  unfolding url_to_title_of_def by (simp add: fold_setdefault)

lemma most_common_keys: "(k, c) \<in> set (most_common n (Counter xs)) \<Longrightarrow> k \<in> set xs"
proof -
  assume "(k, c) \<in> set (most_common n (Counter xs))"
  then have "(k, c) \<in> set (Counter xs)"
    unfolding most_common_def by (auto dest: in_set_takeD)
  then show ?thesis using Counter_key_mem[of "(k, c)" xs] by simp
qed

text \<open>
  C8. The title of a \<open>top_urls\<close> entry is the title of the first record, in the order of
  the record sequence, that has this url and a non-empty title; later titles of the url
  are ignored, and the title is \<open>None\<close> when no record of the url has one.
\<close>

theorem build_aggregate_first_title:
  assumes "build_aggregate lower urlparse parse_qs fromisoformat records by_date period_start period_end = Inr agg"
    and "(u, count, t) \<in> set (agg_top_urls agg)"
  shows "t = map_option title (find (\<lambda>r. url r = u \<and> title r \<noteq> []) records)"
proof -
  from build_aggregate_Inr[OF assms(1)] have
    "agg_top_urls agg = map (\<lambda>(u, count). (u, count, url_to_title_of records u))
                             (most_common 50 (Counter (filter (\<lambda>u. u \<noteq> []) (map url records))))"
    by blast
  with assms(2) have m: "(u, count) \<in> set (most_common 50 (Counter (filter (\<lambda>u. u \<noteq> []) (map url records))))"
    and t: "t = url_to_title_of records u"
    by auto
  from most_common_keys[OF m] have "u \<noteq> []" by simp
  with t show ?thesis by (simp add: url_to_title_of_first)
qed

text \<open>
  The url \<open>https://example.com/\<close> is visited twice, first with the title \<open>Example\<close> and
  then with \<open>Example Domain\<close>: the entry carries \<open>Example\<close>.
\<close>

theorem build_aggregate_first_title_witness:
  "build_aggregate lower_ascii urlparse_ascii parse_qs_ascii fromisoformat_utc example_records
           (group_by_date example_records) example_start example_end = Inr example_aggregate
   \<and> (''https://example.com/'', 2, Some ''Example'') \<in> set (agg_top_urls example_aggregate)
   \<and> map (\<lambda>r. (url r, title r)) (take 3 example_records) =
        [(''https://example.com/'', ''Example''), (''https://search.brave.com/search?q=rust'', ''''),
         (''https://example.com/'', ''Example Domain'')]
   \<and> Some ''Example'' =
        map_option title (find (\<lambda>r. url r = ''https://example.com/'' \<and> title r \<noteq> []) example_records)"
proof -
  have m: "(''https://example.com/'', 2, Some ''Example'') \<in> set (agg_top_urls example_aggregate)"
    by (simp add: example_aggregate_def)
  from build_aggregate_first_title[OF example_build m] example_build m
  show ?thesis by (simp add: example_records_def)
qed

section \<open>build\_aggregate: hourly and weekday distributions\<close>

lemma sum_list_incr:
  "i < length xs \<Longrightarrow> sum_list (xs[i := xs ! i + v]) = sum_list xs + (v::int)"
proof (induction xs arbitrary: i)
  case Nil
  then show ?case by simp
next
  case (Cons x xs)
  then show ?case by (cases i) simp_all
qed

lemma hourly_loop_sum:
  "hourly_loop fromisoformat rs hours = Inr hs \<Longrightarrow>
     length hs = length hours \<and> sum_list hs = sum_list hours + int (length rs)"
proof (induction rs arbitrary: hours)
  case Nil
  then show ?case by simp
next
  case (Cons r rs)
  from Cons.prems obtain dt where
    dt: "fromisoformat (replace ''Z'' ''+00:00'' (timestamp r)) = Inr dt" and
    h: "hour dt < length hours" and
    rest: "hourly_loop fromisoformat rs (hours[hour dt := hours ! hour dt + 1]) = Inr hs"
    by (auto split: sum.splits if_splits)
  from Cons.IH[OF rest] h show ?case by (simp add: sum_list_incr)
qed

lemma dict_incr_sum:
  "dict_incr k kcs = Inr kcs' \<Longrightarrow>
     map fst kcs' = map fst kcs \<and> sum_list (map snd kcs') = sum_list (map snd kcs) + 1"
proof (induction kcs arbitrary: kcs')
  case Nil
  then show ?case by simp
next
  case (Cons a kcs)
  obtain k0 c where a: "a = (k0, c)" by (cases a)
  show ?case
  proof (cases "k = k0")
    case True
    with Cons.prems a show ?thesis by auto
  next
    case False
    with Cons.prems a obtain rest where r: "dict_incr k kcs = Inr rest" and e: "kcs' = (k0, c) # rest"
      by (auto split: sum.splits)
    from Cons.IH[OF r] e a show ?thesis by simp
  qed
qed

lemma weekday_loop_sum:
  "weekday_loop fromisoformat rs counts = Inr cs \<Longrightarrow>
     map fst cs = map fst counts \<and> sum_list (map snd cs) = sum_list (map snd counts) + int (length rs)"
proof (induction rs arbitrary: counts)
  case Nil
  then show ?case by simp
next
  case (Cons r rs)
  from Cons.prems obtain dt counts' where
    i: "dict_incr (names ! weekday dt) counts = Inr counts'" and
    rest: "weekday_loop fromisoformat rs counts' = Inr cs"
    by (auto split: sum.splits if_splits)
  from Cons.IH[OF rest] dict_incr_sum[OF i] show ?case by simp
qed

text \<open>
  C10. In every aggregate that \<open>build_aggregate\<close> returns there are 24 hourly buckets and
  the 7 weekday buckets \<open>Mon\<close> to \<open>Sun\<close>; the hourly buckets sum to \<open>total_visits\<close>, and so
  do the weekday buckets: every record is counted in exactly one bucket of each.
\<close>

theorem build_aggregate_distribution_sums:
  assumes "build_aggregate lower urlparse parse_qs fromisoformat records by_date period_start period_end = Inr agg"
  shows "length (agg_hourly_distribution agg) = 24
    \<and> sum_list (agg_hourly_distribution agg) = agg_total_visits agg
    \<and> map fst (agg_weekday_distribution agg) = [''Mon'', ''Tue'', ''Wed'', ''Thu'', ''Fri'', ''Sat'', ''Sun'']
    \<and> sum_list (map snd (agg_weekday_distribution agg)) = agg_total_visits agg
    \<and> agg_total_visits agg = int (length records)"
proof -
  from build_aggregate_Inr[OF assms] obtain hourly weekdays where
    h: "hourly_distribution fromisoformat records = Inr hourly" and
    w: "weekday_distribution fromisoformat records = Inr weekdays" and
    t: "agg_total_visits agg = int (length records)" and
    ah: "agg_hourly_distribution agg = hourly" and
    aw: "agg_weekday_distribution agg = weekdays"
    by blast
  from h have "hourly_loop fromisoformat records (replicate 24 0) = Inr hourly"
    by (simp only: hourly_distribution_def)
  from hourly_loop_sum[OF this]
  have "length hourly = 24 \<and> sum_list hourly = int (length records)"
    by (simp add: sum_list_replicate)
  moreover from w have "weekday_loop fromisoformat records (map (\<lambda>n. (n, 0)) names) = Inr weekdays"
    by (simp only: weekday_distribution_def)
  from weekday_loop_sum[OF this]
  have "map fst weekdays = names \<and> sum_list (map snd weekdays) = int (length records)"
    by (simp add: comp_def)
  ultimately show ?thesis using t ah aw by (simp add: names_def)
qed

text \<open>On the four visits both distributions sum to 4.\<close>

theorem build_aggregate_distribution_sums_witness:
  "build_aggregate lower_ascii urlparse_ascii parse_qs_ascii fromisoformat_utc example_records
           (group_by_date example_records) example_start example_end = Inr example_aggregate
   \<and> sum_list [0, 0, 0, 0, 0, 0, 0, 0, 0, 1, 1, 0, 1, 0, 0, 1, 0, 0, 0, 0, 0, 0, 0, 0] = (4::int)
   \<and> sum_list (map snd [(''Mon'', 3), (''Tue'', 1), (''Wed'', 0), (''Thu'', 0), (''Fri'', 0),
                         (''Sat'', 0), (''Sun'', 0::int)]) = 4
   \<and> agg_total_visits example_aggregate = 4"
  using build_aggregate_distribution_sums[OF example_build] example_build
  by (simp add: example_aggregate_def)

section \<open>Strings: occurrences, and the ASCII lowering of the examples\<close>

lemma contains_iff: "contains sub s \<longleftrightarrow> (\<exists>p q. s = p @ sub @ q)"
proof (induction s)
  case Nil
  then show ?case by auto
next
  case (Cons c cs)
  show ?case
  proof
    assume "contains sub (c # cs)"
    then consider "prefix sub (c # cs)" | "contains sub cs" by auto
    then show "\<exists>p q. c # cs = p @ sub @ q"
    proof cases
      case 1
      then obtain q where "c # cs = sub @ q" by (auto simp: prefix_def)
      then have "c # cs = [] @ sub @ q" by simp
      then show ?thesis by blast
    next
      case 2
      with Cons.IH obtain p q where "cs = p @ sub @ q" by blast
      then have "c # cs = (c # p) @ sub @ q" by simp
      then show ?thesis by blast
    qed
  next
    assume "\<exists>p q. c # cs = p @ sub @ q"
    then obtain p q where e: "c # cs = p @ sub @ q" by blast
    show "contains sub (c # cs)"
    proof (cases p)
      case Nil
      with e have "prefix sub (c # cs)" by (simp add: prefix_def)
      then show ?thesis by simp
    next
      case (Cons a p')
      with e have "cs = p' @ sub @ q" by simp
      with Cons.IH have "contains sub cs" by blast
      then show ?thesis by simp
    qed
  qed
qed

lemma lower_char_not_upper: "\<not> (CHR ''A'' \<le> lower_char c \<and> lower_char c \<le> CHR ''Z'')"
proof (cases "CHR ''A'' \<le> c \<and> c \<le> CHR ''Z''")
  case True
  then have r: "65 \<le> (of_char c :: nat)" "(of_char c :: nat) \<le> 90"
    by (simp_all add: less_eq_char_def)
  then have "(of_char (lower_char c) :: nat) = of_char c + 32"
    using True by (simp add: lower_char_def of_char_of)
  with r show ?thesis by (simp add: less_eq_char_def)
next
  case False
  then show ?thesis unfolding lower_char_def by auto
qed

lemma lower_char_idem: "lower_char (lower_char c) = lower_char c"
  using lower_char_not_upper[of c] by (auto simp: lower_char_def[of "lower_char c"])

lemma lower_ascii_idem: "lower_ascii (lower_ascii s) = lower_ascii s"
  by (simp add: lower_ascii_def lower_char_idem)

lemma lower_ascii_Nil: "lower_ascii [] = []"
  by (simp add: lower_ascii_def)

section \<open>extract\_domain\<close>

text \<open>
  C7. \<open>extract_domain\<close> returns a string for every input, whatever \<open>urlparse\<close> and
  \<open>str.lower\<close> compute: what \<open>str.lower\<close> makes of the network location when \<open>urlparse\<close>
  returns, the empty string when it raises. No exception leaves the function, so none
  reaches the construction of the record. The result is in lower case: when lowering
  twice is lowering once and the empty string lowers to itself, as for \<open>str.lower\<close>,
  lowering the result again does not change it.
\<close>

theorem extract_domain_safe:
  "(\<forall>parsed. urlparse u = Inr parsed \<longrightarrow> extract_domain lower urlparse u = lower (netloc parsed))
   \<and> (\<forall>e. urlparse u = Inl e \<longrightarrow> extract_domain lower urlparse u = [])
   \<and> ((\<forall>s. lower (lower s) = lower s) \<and> lower [] = [] \<longrightarrow>
        lower (extract_domain lower urlparse u) = extract_domain lower urlparse u)"
proof (intro conjI allI impI)
  fix parsed assume "urlparse u = Inr parsed"
  then show "extract_domain lower urlparse u = lower (netloc parsed)" by (simp add: extract_domain_def)
next
  fix e assume "urlparse u = Inl e"
  then show "extract_domain lower urlparse u = []" by (simp add: extract_domain_def)
next
  assume "(\<forall>s. lower (lower s) = lower s) \<and> lower [] = []"
  then show "lower (extract_domain lower urlparse u) = extract_domain lower urlparse u"
    by (cases "urlparse u") (simp_all add: extract_domain_def)
qed

lemma parse_upper:
  "urlparse_ascii ''HTTPS://WWW.Example.COM/Path'' =
     Inr \<lparr>scheme = ''https'', netloc = ''WWW.Example.COM'', path = ''/Path'', params = [],
          query = [], fragment = []\<rparr>"
  by code_simp

lemma lower_upper: "lower_ascii ''WWW.Example.COM'' = ''www.example.com''"
  by code_simp

lemma lower_lowered: "lower_ascii ''www.example.com'' = ''www.example.com''"
  by code_simp

lemma parse_bracket: "urlparse_ascii ''http://[www.google.com/search?q=a'' = Inl ValueError"
  by code_simp

text \<open>A url that parses, and one with a lone square bracket, which \<open>urlparse\<close> rejects.\<close>

theorem extract_domain_safe_witness:
  "urlparse_ascii ''HTTPS://WWW.Example.COM/Path'' =
     Inr \<lparr>scheme = ''https'', netloc = ''WWW.Example.COM'', path = ''/Path'', params = [],
          query = [], fragment = []\<rparr>
   \<and> extract_domain lower_ascii urlparse_ascii ''HTTPS://WWW.Example.COM/Path'' = ''www.example.com''
   \<and> urlparse_ascii ''http://[www.google.com/search?q=a'' = Inl ValueError
   \<and> extract_domain lower_ascii urlparse_ascii ''http://[www.google.com/search?q=a'' = []
   \<and> (\<forall>s. lower_ascii (lower_ascii s) = lower_ascii s) \<and> lower_ascii [] = []
   \<and> lower_ascii (extract_domain lower_ascii urlparse_ascii ''HTTPS://WWW.Example.COM/Path'')
       = extract_domain lower_ascii urlparse_ascii ''HTTPS://WWW.Example.COM/Path''"
  using extract_domain_safe[of urlparse_ascii "''HTTPS://WWW.Example.COM/Path''" lower_ascii]
    extract_domain_safe[of urlparse_ascii "''http://[www.google.com/search?q=a''" lower_ascii]
    parse_upper parse_bracket lower_upper lower_lowered lower_ascii_idem lower_ascii_Nil
  by simp

section \<open>extract\_search\_query\<close>

lemma engine_hosts_keys:
  "set (map fst engine_hosts) =
     {''www.google.com'', ''google.com'', ''www.bing.com'', ''bing.com'', ''duckduckgo.com'',
      ''www.duckduckgo.com'', ''search.brave.com'', ''search.yahoo.com'', ''yahoo.com''}"
  by (simp add: engine_hosts_def)

lemma engine_hosts_key:
  "host \<in> set (map fst engine_hosts) \<Longrightarrow>
     the (map_of engine_hosts host) =
       (if host \<in> {''search.yahoo.com'', ''yahoo.com''} then ''p'' else ''q'')"
  by (auto simp: engine_hosts_def)

lemma engine_hosts_duckduckgo:
  "host \<in> set (map fst engine_hosts) \<Longrightarrow> startswith host ''duckduckgo'' \<longleftrightarrow> host = ''duckduckgo.com''"
  by (auto simp: engine_hosts_def startswith_def)

lemma extract_search_query_parsed:
  assumes "urlparse u = Inr parsed"
  shows "extract_search_query lower urlparse parse_qs u =
      (if lower (netloc parsed) \<in> set (map fst engine_hosts)
          \<and> (contains ''search'' (lower (path parsed)) \<or> startswith (lower (netloc parsed)) ''duckduckgo'')
       then (case parse_qs (query parsed)
                    (if lower (netloc parsed) \<in> {''search.yahoo.com'', ''yahoo.com''} then ''p'' else ''q'') of
               Some (v # vs) \<Rightarrow> Inr (Some v) | _ \<Rightarrow> Inr None)
       else Inr None)"
proof (cases "lower (netloc parsed) \<in> set (map fst engine_hosts)")
  case True
  from engine_hosts_key[OF True] True assms show ?thesis
    by (auto simp: extract_search_query_def Let_def)
next
  case False
  with assms show ?thesis by (auto simp: extract_search_query_def Let_def)
qed

text \<open>
  C3, as amended. Take a url that \<open>urlparse\<close> parses; its host is the network location
  that \<open>urlparse\<close> returns, lowered by \<open>str.lower\<close>. Leave aside the urls of the host
  \<open>www.duckduckgo.com\<close> whose lowered path does not contain \<open>search\<close>. Then
  \<open>extract_search_query\<close> returns the query \<open>q\<close> exactly when the host is in the table of
  engine hosts, the lowered path contains \<open>search\<close> or the host is one of the search-only
  provider (\<open>duckduckgo.com\<close>, \<open>www.duckduckgo.com\<close>), and \<open>parse_qs\<close> gives the parameter of
  the engine (\<open>p\<close> for the two yahoo hosts, \<open>q\<close> for the others) a list of values that
  starts with \<open>q\<close>. Otherwise the result is \<open>None\<close>; there is no error. Nothing is said
  here about the urls that \<open>urlparse\<close> rejects, nor about the urls left aside.
\<close>

theorem extract_search_query_fires:
  assumes "urlparse u = Inr parsed"
    and "lower (netloc parsed) = ''www.duckduckgo.com'' \<longrightarrow>
           (\<exists>p s. lower (path parsed) = p @ ''search'' @ s)"
  shows "(extract_search_query lower urlparse parse_qs u = Inr (Some q) \<longleftrightarrow>
            lower (netloc parsed) \<in>
              {''www.google.com'', ''google.com'', ''www.bing.com'', ''bing.com'', ''duckduckgo.com'',
               ''www.duckduckgo.com'', ''search.brave.com'', ''search.yahoo.com'', ''yahoo.com''}
          \<and> ((\<exists>p s. lower (path parsed) = p @ ''search'' @ s)
               \<or> lower (netloc parsed) \<in> {''duckduckgo.com'', ''www.duckduckgo.com''})
          \<and> (\<exists>vs. parse_qs (query parsed)
                     (if lower (netloc parsed) \<in> {''search.yahoo.com'', ''yahoo.com''}
                      then ''p'' else ''q'') = Some (q # vs)))
       \<and> (\<exists>r. extract_search_query lower urlparse parse_qs u = Inr r)"
proof -
  define host where "host = lower (netloc parsed)"
  define key where "key = (if host \<in> {''search.yahoo.com'', ''yahoo.com''} then ''p'' else ''q'')"
  define S where "S \<longleftrightarrow> (\<exists>p s. lower (path parsed) = p @ ''search'' @ s)"
  define fires where "fires \<longleftrightarrow> host \<in> set (map fst engine_hosts)
     \<and> (contains ''search'' (lower (path parsed)) \<or> startswith host ''duckduckgo'')"
  have e: "extract_search_query lower urlparse parse_qs u =
      (if fires then (case parse_qs (query parsed) key of Some (v # vs) \<Rightarrow> Inr (Some v) | _ \<Rightarrow> Inr None)
       else Inr None)"
    unfolding fires_def key_def host_def
    using assms(1) by (rule extract_search_query_parsed)
  have w: "host = ''www.duckduckgo.com'' \<longrightarrow> S"
    using assms(2) by (simp only: host_def S_def)
  have f: "fires \<longleftrightarrow> host \<in>
              {''www.google.com'', ''google.com'', ''www.bing.com'', ''bing.com'', ''duckduckgo.com'',
               ''www.duckduckgo.com'', ''search.brave.com'', ''search.yahoo.com'', ''yahoo.com''}
          \<and> (S \<or> host \<in> {''duckduckgo.com'', ''www.duckduckgo.com''})"
  proof (cases "host \<in> set (map fst engine_hosts)")
    case True
    from engine_hosts_duckduckgo[OF True] True w show ?thesis
      unfolding fires_def contains_iff S_def[symmetric] engine_hosts_keys[symmetric] by auto
  next
    case False
    then show ?thesis unfolding fires_def engine_hosts_keys[symmetric] by simp
  qed
  have "extract_search_query lower urlparse parse_qs u = Inr (Some q) \<longleftrightarrow>
      fires \<and> (\<exists>vs. parse_qs (query parsed) key = Some (q # vs))"
    unfolding e by (auto split: option.splits list.splits)
  moreover have "\<exists>r. extract_search_query lower urlparse parse_qs u = Inr r"
    unfolding e by (auto split: option.splits list.splits)
  ultimately show ?thesis unfolding f key_def host_def S_def by blast
qed

lemma parse_repeated:
  "urlparse_ascii ''https://www.google.com/search?q=rust+lang&q=go'' =
     Inr \<lparr>scheme = ''https'', netloc = ''www.google.com'', path = ''/search'', params = [],
          query = ''q=rust+lang&q=go'', fragment = []\<rparr>"
  by code_simp

lemma qs_repeated: "parse_qs_ascii ''q=rust+lang&q=go'' ''q'' = Some [''rust lang'', ''go'']"
  by code_simp

lemma lower_google:
  "lower_ascii ''www.google.com'' = ''www.google.com''" "lower_ascii ''/search'' = ''/search''"
  by code_simp+

text \<open>A repeated parameter: the first value is returned.\<close>

theorem extract_search_query_fires_witness:
  "urlparse_ascii ''https://www.google.com/search?q=rust+lang&q=go'' =
     Inr \<lparr>scheme = ''https'', netloc = ''www.google.com'', path = ''/search'', params = [],
          query = ''q=rust+lang&q=go'', fragment = []\<rparr>
   \<and> lower_ascii ''www.google.com'' \<noteq> ''www.duckduckgo.com''
   \<and> parse_qs_ascii ''q=rust+lang&q=go'' ''q'' = Some [''rust lang'', ''go'']
   \<and> extract_search_query lower_ascii urlparse_ascii parse_qs_ascii
        ''https://www.google.com/search?q=rust+lang&q=go'' = Inr (Some ''rust lang'')"
proof -
  have "''/search'' = ''/'' @ ''search'' @ []" by simp
  then have s: "\<exists>p s. ''/search'' = p @ ''search'' @ s" by blast
  have h: "lower_ascii (netloc \<lparr>scheme = ''https'', netloc = ''www.google.com'', path = ''/search'',
      params = [], query = ''q=rust+lang&q=go'', fragment = []\<rparr>) = ''www.duckduckgo.com'' \<longrightarrow>
      (\<exists>p s. lower_ascii (path \<lparr>scheme = ''https'', netloc = ''www.google.com'', path = ''/search'',
      params = [], query = ''q=rust+lang&q=go'', fragment = []\<rparr>) = p @ ''search'' @ s)"
    by (simp add: lower_google)
  from extract_search_query_fires[where lower = lower_ascii and urlparse = urlparse_ascii
      and parse_qs = parse_qs_ascii and q = "''rust lang''"
      and u = "''https://www.google.com/search?q=rust+lang&q=go''", OF parse_repeated h]
    s parse_repeated qs_repeated
  show ?thesis by (simp add: lower_google)
qed

lemma parse_noquery:
  "urlparse_ascii ''https://www.google.com/search'' =
     Inr \<lparr>scheme = ''https'', netloc = ''www.google.com'', path = ''/search'', params = [],
          query = [], fragment = []\<rparr>"
  by code_simp

lemma extract_noquery:
  "extract_search_query lower_ascii urlparse_ascii parse_qs_ascii ''https://www.google.com/search'' = Inr None"
  by code_simp

lemma host_in_table: "lower_ascii ''www.google.com'' \<in> set (map fst engine_hosts)"
  by code_simp

lemma path_has_search: "contains ''search'' (lower_ascii ''/search'')"
  by code_simp

text \<open>
  C3, as stated, fails: the host \<open>www.google.com\<close> is in the table and the path \<open>/search\<close>
  contains \<open>search\<close>, but the url has no parameter \<open>q\<close> and the result is \<open>None\<close>.
\<close>

theorem extract_search_query_counterexample:
  "urlparse_ascii ''https://www.google.com/search'' =
     Inr \<lparr>scheme = ''https'', netloc = ''www.google.com'', path = ''/search'', params = [],
          query = [], fragment = []\<rparr>
   \<and> lower_ascii ''www.google.com'' \<in> set (map fst engine_hosts)
   \<and> contains ''search'' (lower_ascii ''/search'')
   \<and> extract_search_query lower_ascii urlparse_ascii parse_qs_ascii ''https://www.google.com/search'' = Inr None"
  using parse_noquery host_in_table path_has_search extract_noquery by (intro conjI)

text \<open>
  Two defects of the source, which the statement above leaves aside. Unlike
  \<open>extract_domain\<close>, \<open>extract_search_query\<close> does not catch the exception of \<open>urlparse\<close>: on
  a url that \<open>urlparse\<close> rejects it raises. And the test \<open>host.startswith("duckduckgo")\<close>
  misses the host \<open>www.duckduckgo.com\<close> of the table: on that host a url whose path does
  not contain \<open>search\<close> gives \<open>None\<close>, whatever its parameters.
\<close>

lemma extract_search_query_raises:
  "urlparse u = Inl e \<Longrightarrow> extract_search_query lower urlparse parse_qs u = Inl e"
  by (simp add: extract_search_query_def)

lemma extract_search_query_www_duckduckgo:
  assumes "urlparse u = Inr parsed" and "lower (netloc parsed) = ''www.duckduckgo.com''"
    and "\<not> contains ''search'' (lower (path parsed))"
  shows "extract_search_query lower urlparse parse_qs u = Inr None"
  using assms by (simp add: extract_search_query_parsed startswith_def)

end
